theory Spec2Isabelle
  imports Main "HOL-Library.Monad_Syntax"
begin

section \<open>C++ integer arithmetic\<close>

text \<open>
  The lessons compute with C++ \<open>int\<close>. A value is modelled as a mathematical integer.
  The operators \<open>/\<close> and \<open>%\<close> are the C++ ones: the quotient is truncated towards
  zero, the remainder is what is left (\<open>a == (a / b) * b + a % b\<close>), and a zero divisor
  is undefined behaviour, which the model reports as \<open>None\<close>.
  Signed overflow is undefined behaviour as well. \<open>in_int\<close> is the range of a 32-bit
  \<open>int\<close>, and \<open>c_mul\<close> is the product that reports an overflow as \<open>None\<close>. It
  stands for the one product of Lesson 5 that nothing but the size of the image bounds,
  \<open>xTiles * yTiles\<close>; \<open>lesson5_within_int\<close> below shows that whenever that product
  fits, every coordinate Lesson 5 computes fits too.
\<close>

definition c_div :: "int \<Rightarrow> int \<Rightarrow> int option" where
  "c_div a b = (if b = 0 then None else Some (sgn a * sgn b * (\<bar>a\<bar> div \<bar>b\<bar>)))"

definition c_mod :: "int \<Rightarrow> int \<Rightarrow> int option" where
  "c_mod a b = (if b = 0 then None else Some (a - sgn a * sgn b * (\<bar>a\<bar> div \<bar>b\<bar>) * b))"

definition in_int :: "int \<Rightarrow> bool" where
  "in_int a \<longleftrightarrow> - (2 ^ 31) \<le> a \<and> a < 2 ^ 31"

definition c_mul :: "int \<Rightarrow> int \<Rightarrow> int option" where
  "c_mul a b = (if in_int (a * b) then Some (a * b) else None)"

section \<open>Data: rectangles and the calls into the rendering library\<close>

text \<open>
  \<open>SDL_Rect\<close> is the library's struct \<open>{ int x, y, w, h; }\<close>. The fields carry the
  prefix \<open>rect_\<close> because \<open>x\<close>, \<open>y\<close>, \<open>w\<close> and \<open>h\<close> are needed as variables.
\<close>

record SDL_Rect =
  rect_x :: int
  rect_y :: int
  rect_w :: int
  rect_h :: int

text \<open>
  A pointer is an address; \<open>nullptr\<close> is address 0. The rendering library is outside the
  repository: a call into it is recorded, with its arguments, in the trace of calls
  made so far. The clip of \<open>SDL_RenderCopy\<close> is optional (\<open>NULL\<close> draws the whole
  texture).
\<close>

type_synonym ptr = nat

definition nullptr :: ptr where "nullptr = 0"

datatype sdl_call =
    SDL_RenderClear ptr
  | SDL_RenderCopy ptr ptr "SDL_Rect option" SDL_Rect
  | SDL_RenderPresent ptr
  | SDL_DestroyWindow ptr
  | SDL_DestroyRenderer ptr
  | SDL_DestroyTexture ptr
  | SDL_FreeSurface ptr

section \<open>Lesson 5: the tile arithmetic of \<open>main\<close>\<close>

text \<open>
  The expressions of \<open>main\<close> (Lesson5/src/main.cc, lines 127 to 151 and 193 to 194),
  each as a function of the variables it reads. The constants \<open>tileW\<close>, \<open>tileH\<close>,
  \<open>SCREEN_WIDTH\<close> and \<open>SCREEN_HEIGHT\<close> are parameters here (\<open>tw\<close>, \<open>th\<close>,
  \<open>sw\<close>, \<open>sh\<close>); the program's values are fixed below.
\<close>

definition tileW :: int where "tileW = 100"
definition tileH :: int where "tileH = 100"
definition SCREEN_WIDTH :: int where "SCREEN_WIDTH = 640"
definition SCREEN_HEIGHT :: int where "SCREEN_HEIGHT = 480"

text \<open>
  \<open>xTiles = imageW / tileW\<close>, \<open>yTiles = imageH / tileH\<close>, \<open>totalTiles = xTiles * yTiles\<close>
  (lines 130 to 132). The product overflows \<open>int\<close> for an image of \<open>2 ^ 31\<close> tiles or
  more, and then has no value.
\<close>

definition xTiles_of :: "int \<Rightarrow> int \<Rightarrow> int option" where
  "xTiles_of iw tw = c_div iw tw"

definition yTiles_of :: "int \<Rightarrow> int \<Rightarrow> int option" where
  "yTiles_of ih th = c_div ih th"

definition totalTiles_of :: "int \<Rightarrow> int \<Rightarrow> int \<Rightarrow> int \<Rightarrow> int option" where
  "totalTiles_of iw ih tw th =
     do { xt \<leftarrow> xTiles_of iw tw; yt \<leftarrow> yTiles_of ih th; c_mul xt yt }"

text \<open>
  The body of the loop that builds the clips (lines 137 to 140):
  \<open>clips[i].x = i / yTiles * tileW; clips[i].y = i % yTiles * tileH;
  clips[i].w = tileW; clips[i].h = tileH\<close>.
\<close>

definition clip_of :: "int \<Rightarrow> int \<Rightarrow> int \<Rightarrow> int \<Rightarrow> SDL_Rect option" where
  "clip_of i tw th yt =
     do { q \<leftarrow> c_div i yt; r \<leftarrow> c_mod i yt;
          Some \<lparr>rect_x = q * tw, rect_y = r * th, rect_w = tw, rect_h = th\<rparr> }"

text \<open>
  The loop \<open>for (int i = 0; i < totalTiles; i++)\<close> itself. The array \<open>clips\<close> is
  filled from index 0 upwards, so the entry written in round \<open>i\<close> is appended to the
  \<open>i\<close> entries written before.
\<close>

function build_clips :: "int \<Rightarrow> int \<Rightarrow> int \<Rightarrow> int \<Rightarrow> int \<Rightarrow> SDL_Rect list \<Rightarrow> SDL_Rect list option" where
  "build_clips i tt tw th yt cs =
     (if i < tt
      then (case clip_of i tw th yt of
              None \<Rightarrow> None
            | Some r \<Rightarrow> build_clips (i + 1) tt tw th yt (cs @ [r]))
      else Some cs)"
  by pat_completeness auto
termination
  by (relation "measure (\<lambda>(i, tt, tw, th, yt, cs). nat (tt - i))") auto

text \<open>
  The screen grid (lines 147 to 151):
  \<open>xScreenTiles = SCREEN_WIDTH / tileW + (SCREEN_WIDTH % tileW != 0 ? 1 : 0)\<close>, the same
  for \<open>yScreenTiles\<close>, and \<open>totalScreenTiles = xScreenTiles * yScreenTiles\<close>.
\<close>

definition xScreenTiles_of :: "int \<Rightarrow> int \<Rightarrow> int option" where
  "xScreenTiles_of sw tw =
     do { q \<leftarrow> c_div sw tw; r \<leftarrow> c_mod sw tw; Some (q + (if r \<noteq> 0 then 1 else 0)) }"

definition yScreenTiles_of :: "int \<Rightarrow> int \<Rightarrow> int option" where
  "yScreenTiles_of sh th =
     do { q \<leftarrow> c_div sh th; r \<leftarrow> c_mod sh th; Some (q + (if r \<noteq> 0 then 1 else 0)) }"

definition totalScreenTiles_of :: "int \<Rightarrow> int \<Rightarrow> int \<Rightarrow> int \<Rightarrow> int option" where
  "totalScreenTiles_of sw sh tw th =
     do { xs \<leftarrow> xScreenTiles_of sw tw; ys \<leftarrow> yScreenTiles_of sh th; Some (xs * ys) }"

text \<open>
  The position of screen tile \<open>i\<close> in the draw loop (lines 193 and 194):
  \<open>x = i / yScreenTiles * tileW; y = i % yScreenTiles * tileH\<close>.
\<close>

definition screen_xy_of :: "int \<Rightarrow> int \<Rightarrow> int \<Rightarrow> int \<Rightarrow> (int \<times> int) option" where
  "screen_xy_of i tw th yst =
     do { q \<leftarrow> c_div i yst; r \<leftarrow> c_mod i yst; Some (q * tw, r * th) }"

text \<open>
  Lines 135 to 141: the declaration \<open>SDL_Rect clips[totalTiles]\<close> (an array of negative
  length is undefined behaviour) and the loop that fills it; \<open>clips_of\<close> is lines 130
  to 141 together, from the size of the image to the array of clips.
\<close>

definition fill_clips :: "int \<Rightarrow> int \<Rightarrow> int \<Rightarrow> int \<Rightarrow> SDL_Rect list option" where
  "fill_clips tt tw th yt = (if tt < 0 then None else build_clips 0 tt tw th yt [])"

definition clips_of :: "int \<Rightarrow> int \<Rightarrow> int \<Rightarrow> int \<Rightarrow> SDL_Rect list option" where
  "clips_of iw ih tw th =
     do { xt \<leftarrow> xTiles_of iw tw;
          yt \<leftarrow> yTiles_of ih th;
          tt \<leftarrow> c_mul xt yt;
          fill_clips tt tw th yt }"

section \<open>Lesson 5: the state of \<open>main\<close> and the event loop\<close>

text \<open>
  The local variables of \<open>main\<close> that are live from line 124 on, under their own names
  (\<open>image_ptr\<close> is the texture pointer \<open>image\<close>), and \<open>calls\<close>, the trace of the calls
  made into the rendering library.
\<close>

record main_state =
  ren :: ptr
  image_ptr :: ptr
  imageW :: int
  imageH :: int
  xTiles :: int
  yTiles :: int
  totalTiles :: int
  clips :: "SDL_Rect list"
  useClip :: int
  xScreenTiles :: int
  yScreenTiles :: int
  totalScreenTiles :: int
  quit :: bool
  calls :: "sdl_call list"

text \<open>
  Lines 127 to 159, run on a state in which \<open>SDL_QueryTexture\<close> has stored the size of
  the image in \<open>imageW\<close> and \<open>imageH\<close>.
\<close>

definition tile_layout :: "main_state \<Rightarrow> main_state option" where
  "tile_layout s =
     do { xt \<leftarrow> xTiles_of (imageW s) tileW;
          yt \<leftarrow> yTiles_of (imageH s) tileH;
          tt \<leftarrow> c_mul xt yt;
          cs \<leftarrow> fill_clips tt tileW tileH yt;
          xs \<leftarrow> xScreenTiles_of SCREEN_WIDTH tileW;
          ys \<leftarrow> yScreenTiles_of SCREEN_HEIGHT tileH;
          Some (s\<lparr>xTiles := xt, yTiles := yt, totalTiles := tt, clips := cs,
                  useClip := 0, xScreenTiles := xs, yScreenTiles := ys,
                  totalScreenTiles := xs * ys, quit := False\<rparr>) }"

text \<open>
  The events the loop tells apart. The key codes and event types are constants of the
  library; the labels of a \<open>switch\<close> are distinct, and every other key or event type is
  \<open>SDLK_OTHER\<close> or \<open>SDL_OTHER\<close>.
\<close>

datatype SDL_Keycode =
    SDLK_1 | SDLK_KP_1 | SDLK_2 | SDLK_KP_2 | SDLK_3 | SDLK_KP_3 | SDLK_4 | SDLK_KP_4
  | SDLK_ESCAPE | SDLK_OTHER int

datatype SDL_Event = SDL_QUIT | SDL_KEYDOWN SDL_Keycode | SDL_OTHER nat

text \<open>The body of \<open>while (SDL_PollEvent(&e))\<close>, lines 163 to 187.\<close>

fun handle_event :: "SDL_Event \<Rightarrow> main_state \<Rightarrow> main_state" where
  "handle_event SDL_QUIT s = s\<lparr>quit := True\<rparr>"
| "handle_event (SDL_KEYDOWN SDLK_1) s = s\<lparr>useClip := 0\<rparr>"
| "handle_event (SDL_KEYDOWN SDLK_KP_1) s = s\<lparr>useClip := 0\<rparr>"
| "handle_event (SDL_KEYDOWN SDLK_2) s = s\<lparr>useClip := 1\<rparr>"
| "handle_event (SDL_KEYDOWN SDLK_KP_2) s = s\<lparr>useClip := 1\<rparr>"
| "handle_event (SDL_KEYDOWN SDLK_3) s = s\<lparr>useClip := 2\<rparr>"
| "handle_event (SDL_KEYDOWN SDLK_KP_3) s = s\<lparr>useClip := 2\<rparr>"
| "handle_event (SDL_KEYDOWN SDLK_4) s = s\<lparr>useClip := 3\<rparr>"
| "handle_event (SDL_KEYDOWN SDLK_KP_4) s = s\<lparr>useClip := 3\<rparr>"
| "handle_event (SDL_KEYDOWN SDLK_ESCAPE) s = s\<lparr>quit := True\<rparr>"
| "handle_event (SDL_KEYDOWN (SDLK_OTHER k)) s = s"
| "handle_event (SDL_OTHER t) s = s"

text \<open>
  \<open>clips[useClip]\<close>: reading an array outside its bounds is undefined behaviour.
\<close>

definition clip_at :: "SDL_Rect list \<Rightarrow> int \<Rightarrow> SDL_Rect option" where
  "clip_at cs k = (if 0 \<le> k \<and> k < int (length cs) then Some (cs ! nat k) else None)"

text \<open>
  The two overloads of \<open>renderTexture\<close> of Lesson 5 (lines 50 to 82). The second takes
  the size of the drawn rectangle from the clip, or from the texture (whose size
  \<open>SDL_QueryTexture\<close> reports, here \<open>tex_size\<close>) when there is no clip.
\<close>

definition renderTexture_dst :: "ptr \<Rightarrow> ptr \<Rightarrow> SDL_Rect \<Rightarrow> SDL_Rect option \<Rightarrow> sdl_call list \<Rightarrow> sdl_call list" where
  "renderTexture_dst tex rn dst clip cs = cs @ [SDL_RenderCopy rn tex clip dst]"

definition renderTexture_xy :: "int \<times> int \<Rightarrow> ptr \<Rightarrow> ptr \<Rightarrow> int \<Rightarrow> int \<Rightarrow> SDL_Rect option \<Rightarrow> sdl_call list \<Rightarrow> sdl_call list" where
  "renderTexture_xy tex_size tex rn x y clip cs =
     (case clip of
        Some c \<Rightarrow>
          renderTexture_dst tex rn \<lparr>rect_x = x, rect_y = y, rect_w = rect_w c, rect_h = rect_h c\<rparr> clip cs
      | None \<Rightarrow>
          renderTexture_dst tex rn \<lparr>rect_x = x, rect_y = y, rect_w = fst tex_size, rect_h = snd tex_size\<rparr> clip cs)"

text \<open>The draw loop \<open>for (int i = 0; i < totalScreenTiles; i++)\<close>, lines 192 to 196.\<close>

function draw_tiles :: "int \<Rightarrow> main_state \<Rightarrow> main_state option" where
  "draw_tiles i s =
     (if i < totalScreenTiles s
      then (case screen_xy_of i tileW tileH (yScreenTiles s) of
              None \<Rightarrow> None
            | Some (x, y) \<Rightarrow>
                (case clip_at (clips s) (useClip s) of
                   None \<Rightarrow> None
                 | Some c \<Rightarrow>
                     draw_tiles (i + 1)
                       (s\<lparr>calls := renderTexture_xy (imageW s, imageH s) (image_ptr s) (ren s) x y (Some c) (calls s)\<rparr>)))
      else Some s)"
  by pat_completeness auto
termination
  by (relation "measure (\<lambda>(i, s). nat (totalScreenTiles s - i))") auto

text \<open>Lines 190 to 198: clear, draw every screen tile, present.\<close>

definition render_frame :: "main_state \<Rightarrow> main_state option" where
  "render_frame s =
     do { s' \<leftarrow> draw_tiles 0 (s\<lparr>calls := calls s @ [SDL_RenderClear (ren s)]\<rparr>);
          Some (s'\<lparr>calls := calls s' @ [SDL_RenderPresent (ren s')]\<rparr>) }"

text \<open>
  The event loop, lines 161 to 199, as a step relation between control points:
  \<open>LoopHead\<close> is the test of \<open>while (!quit)\<close>, \<open>Polling\<close> the test of
  \<open>while (SDL_PollEvent(&e))\<close>, \<open>Exited\<close> the point after the loop. Which event the
  library delivers, and whether it delivers one, is not determined by the program.
\<close>

datatype pc = LoopHead | Polling | Exited

inductive step :: "pc \<times> main_state \<Rightarrow> pc \<times> main_state \<Rightarrow> bool" where
  enter: "\<not> quit s \<Longrightarrow> step (LoopHead, s) (Polling, s)"
| leave: "quit s \<Longrightarrow> step (LoopHead, s) (Exited, s)"
| poll_event: "step (Polling, s) (Polling, handle_event e s)"
| poll_empty: "render_frame s = Some s' \<Longrightarrow> step (Polling, s) (LoopHead, s')"

text \<open>
  The same loop as a function of its input: the events delivered in each round of the
  outer loop, for the rounds observed.
\<close>

fun poll_events :: "SDL_Event list \<Rightarrow> main_state \<Rightarrow> main_state" where
  "poll_events [] s = s"
| "poll_events (e # es) s = poll_events es (handle_event e s)"

fun event_loop :: "SDL_Event list list \<Rightarrow> main_state \<Rightarrow> main_state option" where
  "event_loop [] s = Some s"
| "event_loop (es # ess) s =
     (if quit s then Some s
      else (case render_frame (poll_events es s) of
              None \<Rightarrow> None
            | Some s' \<Rightarrow> event_loop ess s'))"

text \<open>
  What the tile layout block leaves in a state, and where the tiles of a frame were
  drawn: the top left corners of the destination rectangles of the \<open>SDL_RenderCopy\<close>
  calls made between a state and a later one.
\<close>

definition origin_of :: "SDL_Rect \<Rightarrow> int \<times> int" where
  "origin_of r = (rect_x r, rect_y r)"

definition layout_of :: "main_state \<Rightarrow> int \<times> int \<times> int \<times> SDL_Rect list \<times> int \<times> int \<times> int" where
  "layout_of s =
     (xTiles s, yTiles s, totalTiles s, clips s, xScreenTiles s, yScreenTiles s, totalScreenTiles s)"

fun drawn_at :: "sdl_call \<Rightarrow> (int \<times> int) list" where
  "drawn_at (SDL_RenderCopy rn tex clip dst) = [origin_of dst]"
| "drawn_at (SDL_RenderClear rn) = []"
| "drawn_at (SDL_RenderPresent rn) = []"
| "drawn_at (SDL_DestroyWindow p) = []"
| "drawn_at (SDL_DestroyRenderer p) = []"
| "drawn_at (SDL_DestroyTexture p) = []"
| "drawn_at (SDL_FreeSurface p) = []"

definition frame_origins :: "main_state \<Rightarrow> main_state \<Rightarrow> (int \<times> int) list" where
  "frame_origins s s' = concat (map drawn_at (drop (length (calls s)) (calls s')))"

text \<open>
  A state of \<open>main\<close> at line 126, for examples: the image is 400 by 200, and the
  variables not yet assigned hold arbitrary values.
\<close>

definition example_state :: main_state where
  "example_state =
     \<lparr>ren = 1, image_ptr = 2, imageW = 400, imageH = 200, xTiles = 0, yTiles = 0,
       totalTiles = 0, clips = [], useClip = 7, xScreenTiles = 0, yScreenTiles = 0,
       totalScreenTiles = 0, quit = True, calls = []\<rparr>"

section \<open>Lesson 3: the background tiling loop\<close>

text \<open>
  Lesson3/src/main.cc, lines 115 to 125: \<open>xTiles = SCREEN_WIDTH / TILE_SIZE\<close>,
  \<open>yTiles = SCREEN_HEIGHT / TILE_SIZE\<close>, and in the loop \<open>x = i % xTiles\<close>,
  \<open>y = i / xTiles\<close>, drawn at \<open>(x * TILE_SIZE, y * TILE_SIZE)\<close> with width and height
  \<open>TILE_SIZE\<close>. \<open>background_dst_of\<close> is the destination rectangle that
  \<open>renderTexture\<close> (lines 53 to 61) builds for tile \<open>i\<close>.
\<close>

definition TILE_SIZE :: int where "TILE_SIZE = 40"

definition background_xTiles_of :: "int \<Rightarrow> int \<Rightarrow> int option" where
  "background_xTiles_of sw ts = c_div sw ts"

definition background_yTiles_of :: "int \<Rightarrow> int \<Rightarrow> int option" where
  "background_yTiles_of sh ts = c_div sh ts"

definition background_dst_of :: "int \<Rightarrow> int \<Rightarrow> int \<Rightarrow> SDL_Rect option" where
  "background_dst_of i ts xt =
     do { x \<leftarrow> c_mod i xt; y \<leftarrow> c_div i xt;
          Some \<lparr>rect_x = x * ts, rect_y = y * ts, rect_w = ts, rect_h = ts\<rparr> }"

section \<open>The cleanup helper\<close>

text \<open>
  \<open>cleanup.h\<close>. The template is specialised for four pointer types; a handle is a pointer
  together with the type it was passed at. Each specialisation returns at once on a null
  pointer and calls the library's release function otherwise.
\<close>

datatype handle = Window ptr | Renderer ptr | Texture ptr | Surface ptr

fun cleanup1 :: "handle \<Rightarrow> sdl_call list \<Rightarrow> sdl_call list" where
  "cleanup1 (Window win) cs = (if win = nullptr then cs else cs @ [SDL_DestroyWindow win])"
| "cleanup1 (Renderer rn) cs = (if rn = nullptr then cs else cs @ [SDL_DestroyRenderer rn])"
| "cleanup1 (Texture tex) cs = (if tex = nullptr then cs else cs @ [SDL_DestroyTexture tex])"
| "cleanup1 (Surface surf) cs = (if surf = nullptr then cs else cs @ [SDL_FreeSurface surf])"

text \<open>
  The variadic template \<open>cleanup(t, args...)\<close>: clean up the first item and recurse on
  the rest. A call with one argument is a specialisation; a call with no argument does
  not compile, and the model lets it do nothing.
\<close>

fun cleanup :: "handle list \<Rightarrow> sdl_call list \<Rightarrow> sdl_call list" where
  "cleanup [] cs = cs"
| "cleanup [t] cs = cleanup1 t cs"
| "cleanup (t # args) cs = cleanup args (cleanup1 t cs)"

text \<open>
  Whether a handle is null, and the call into the library that releases it.
\<close>

fun is_null :: "handle \<Rightarrow> bool" where
  "is_null (Window p) = (p = nullptr)"
| "is_null (Renderer p) = (p = nullptr)"
| "is_null (Texture p) = (p = nullptr)"
| "is_null (Surface p) = (p = nullptr)"

fun release_call :: "handle \<Rightarrow> sdl_call" where
  "release_call (Window p) = SDL_DestroyWindow p"
| "release_call (Renderer p) = SDL_DestroyRenderer p"
| "release_call (Texture p) = SDL_DestroyTexture p"
| "release_call (Surface p) = SDL_FreeSurface p"

section \<open>The tile indexer as the specification words it\<close>

text \<open>
  The contract of the screen tile origin in the words of the specification (section 4.1):
  \<open>x = (index / rowsPerScreen) * tileWidth\<close>, \<open>y = (index % rowsPerScreen) * tileHeight\<close>.
  It is compared below with what the screen-tiling loop of each lesson computes.
\<close>

definition screenTileOrigin :: "int \<Rightarrow> int \<Rightarrow> int \<Rightarrow> int \<Rightarrow> int \<times> int" where
  "screenTileOrigin index tileWidth tileHeight rowsPerScreen =
     ((index div rowsPerScreen) * tileWidth, (index mod rowsPerScreen) * tileHeight)"

declare build_clips.simps [simp del]
declare draw_tiles.simps [simp del]

section \<open>Facts about the model\<close>

subsection \<open>Division and remainder\<close>

lemma c_mul_in_int: "in_int (a * b) \<Longrightarrow> c_mul a b = Some (a * b)"
  by (simp add: c_mul_def)

lemma c_mul_Some: "c_mul a b = Some c \<Longrightarrow> c = a * b \<and> in_int c"
  by (auto simp add: c_mul_def split: if_splits)

lemma c_div_nonneg: "0 \<le> a \<Longrightarrow> 0 < b \<Longrightarrow> c_div a b = Some (a div b)"
  by (cases "a = 0") (simp_all add: c_div_def)

lemma c_mod_nonneg: "0 \<le> a \<Longrightarrow> 0 < b \<Longrightarrow> c_mod a b = Some (a mod b)"
  by (cases "a = 0") (simp_all add: c_mod_def minus_div_mult_eq_mod)

lemma div_less_of_less_mult:
  fixes i a b :: int
  assumes "0 < b" and "i < a * b"
  shows "i div b < a"
proof -
  have "b * (i div b) \<le> i"
    using pos_mod_sign [OF assms(1), of i] mult_div_mod_eq [of b i] by linarith
  then have "b * (i div b) < b * a" using assms(2) by (simp add: mult.commute)
  then show ?thesis using assms(1) by (simp add: mult_less_cancel_left_pos)
qed

lemma succ_same_column:
  fixes i r :: int
  assumes "0 < r" and "i mod r \<noteq> r - 1"
  shows "(i + 1) div r = i div r" and "(i + 1) mod r = i mod r + 1"
proof -
  have b: "0 \<le> i mod r + 1" "i mod r + 1 < r"
    using assms pos_mod_bound [of r i] pos_mod_sign [of r i] by linarith+
  have e: "i + 1 = r * (i div r) + (i mod r + 1)" by simp
  show "(i + 1) div r = i div r" using e b by (rule int_div_pos_eq)
  show "(i + 1) mod r = i mod r + 1" using e b by (rule int_mod_pos_eq)
qed

lemma succ_next_column:
  fixes i r :: int
  assumes "0 < r" and "i mod r = r - 1"
  shows "(i + 1) div r = i div r + 1" and "(i + 1) mod r = 0"
proof -
  have "r * (i div r) + i mod r = i" by simp
  then have e: "i + 1 = r * (i div r + 1) + 0" using assms(2) by (simp add: algebra_simps)
  show "(i + 1) div r = i div r + 1" using e _ assms(1) by (rule int_div_pos_eq) simp
  show "(i + 1) mod r = 0" using e _ assms(1) by (rule int_mod_pos_eq) simp
qed

lemma tile_inside:
  fixes i xt yt tw th :: int
  assumes "0 < tw" and "0 < th" and "0 < yt" and "0 \<le> i" and "i < xt * yt"
  shows "(i div yt) * tw + tw \<le> xt * tw" and "(i mod yt) * th + th \<le> yt * th"
proof -
  have "i div yt + 1 \<le> xt"
    using div_less_of_less_mult [OF assms(3) assms(5)] by simp
  then have "(i div yt + 1) * tw \<le> xt * tw"
    using assms(1) by (simp add: mult_right_mono)
  then show "(i div yt) * tw + tw \<le> xt * tw" by (simp add: algebra_simps)
  have "i mod yt + 1 \<le> yt"
    using pos_mod_bound [OF assms(3), of i] by simp
  then have "(i mod yt + 1) * th \<le> yt * th"
    using assms(2) by (simp add: mult_right_mono)
  then show "(i mod yt) * th + th \<le> yt * th" by (simp add: algebra_simps)
qed

lemma tiled_extent:
  fixes a b :: int
  shows "(a div b) * b = a - a mod b"
  by (simp add: algebra_simps minus_mod_eq_mult_div)

subsection \<open>The loop that builds the clips\<close>

text \<open>
  With a positive number of rows the loop runs without a division by zero and leaves the
  clips of the indices \<open>0\<close> to \<open>totalTiles - 1\<close>, in that order.
\<close>

lemma build_clips_eq:
  "0 \<le> i \<Longrightarrow> 0 < yt \<Longrightarrow>
   build_clips i tt tw th yt cs =
     Some (cs @ map (\<lambda>k. \<lparr>rect_x = (k div yt) * tw, rect_y = (k mod yt) * th,
                             rect_w = tw, rect_h = th\<rparr>) [i..tt - 1])"
proof (induction i tt tw th yt cs rule: build_clips.induct)
  case (1 i tt tw th yt cs)
  show ?case
  proof (cases "i < tt")
    case True
    have c: "clip_of i tw th yt =
        Some \<lparr>rect_x = (i div yt) * tw, rect_y = (i mod yt) * th, rect_w = tw, rect_h = th\<rparr>"
      using "1.prems" by (simp add: clip_of_def c_div_nonneg c_mod_nonneg)
    have u: "[i..tt - 1] = i # [i + 1..tt - 1]"
      using True by (simp add: upto_rec1)
    have "build_clips (i + 1) tt tw th yt
            (cs @ [\<lparr>rect_x = (i div yt) * tw, rect_y = (i mod yt) * th, rect_w = tw, rect_h = th\<rparr>]) =
          Some ((cs @ [\<lparr>rect_x = (i div yt) * tw, rect_y = (i mod yt) * th, rect_w = tw, rect_h = th\<rparr>]) @
            map (\<lambda>k. \<lparr>rect_x = (k div yt) * tw, rect_y = (k mod yt) * th,
                             rect_w = tw, rect_h = th\<rparr>) [i + 1..tt - 1])"
      using "1.IH" [OF True c] "1.prems" by simp
    then show ?thesis
      using True c u by (subst build_clips.simps) simp
  next
    case False
    then show ?thesis by (subst build_clips.simps) simp
  qed
qed

lemma build_clips_length:
  "build_clips i tt tw th yt cs0 = Some cs \<Longrightarrow> i \<le> tt \<Longrightarrow>
   int (length cs) = int (length cs0) + (tt - i)"
proof (induction i tt tw th yt cs0 rule: build_clips.induct)
  case (1 i tt tw th yt cs0)
  show ?case
  proof (cases "i < tt")
    case True
    then obtain r where r: "clip_of i tw th yt = Some r"
      and b: "build_clips (i + 1) tt tw th yt (cs0 @ [r]) = Some cs"
      using "1.prems"(1) by (subst (asm) build_clips.simps) (auto split: option.splits)
    have "int (length cs) = int (length (cs0 @ [r])) + (tt - (i + 1))"
      using "1.IH" [OF True r b] True by simp
    then show ?thesis by simp
  next
    case False
    then show ?thesis
      using "1.prems" by (subst (asm) build_clips.simps) simp
  qed
qed

lemma fill_clips_length:
  assumes "fill_clips tt tw th yt = Some cs"
  shows "int (length cs) = tt"
proof -
  have "\<not> tt < 0" and "build_clips 0 tt tw th yt [] = Some cs"
    using assms by (simp_all add: fill_clips_def split: if_splits)
  then show ?thesis
    using build_clips_length [of 0 tt tw th yt "[]" cs] by simp
qed

lemma clips_of_eq:
  assumes "0 < tw" and "0 < th" and "0 \<le> iw" and "0 \<le> ih"
    and "in_int ((iw div tw) * (ih div th))"
  shows "clips_of iw ih tw th =
     Some (if ih div th = 0 then []
           else map (\<lambda>k. \<lparr>rect_x = (k div (ih div th)) * tw, rect_y = (k mod (ih div th)) * th,
                             rect_w = tw, rect_h = th\<rparr>) [0..(iw div tw) * (ih div th) - 1])"
proof -
  have x: "0 \<le> iw div tw" and y: "0 \<le> ih div th"
    using assms by (simp_all add: pos_imp_zdiv_nonneg_iff)
  have n: "\<not> (iw div tw) * (ih div th) < 0"
    using x y by (simp add: not_less)
  show ?thesis
  proof (cases "ih div th = 0")
    case True
    then show ?thesis
      using assms n
      by (simp add: clips_of_def fill_clips_def xTiles_of_def yTiles_of_def c_div_nonneg c_mul_in_int
          build_clips.simps)
  next
    case False
    then have "0 < ih div th" using y by simp
    then show ?thesis
      using assms n False
      by (simp add: clips_of_def fill_clips_def xTiles_of_def yTiles_of_def c_div_nonneg c_mul_in_int
          build_clips_eq)
  qed
qed

lemma clips_index:
  fixes i n :: int
  assumes "0 \<le> i" and "i < n"
  shows "clip_at (map f [0..n - 1]) i = Some (f i)"
  using assms by (simp add: clip_at_def)

subsection \<open>The layout block\<close>

lemma screen_counts:
  "xScreenTiles_of SCREEN_WIDTH tileW = Some 7" "yScreenTiles_of SCREEN_HEIGHT tileH = Some 5"
  by (simp_all add: xScreenTiles_of_def yScreenTiles_of_def c_div_def c_mod_def
      SCREEN_WIDTH_def SCREEN_HEIGHT_def tileW_def tileH_def)

lemma tile_layout_Some:
  assumes "tile_layout s = Some s0"
  shows "useClip s0 = 0" and "\<not> quit s0" and "int (length (clips s0)) = totalTiles s0"
    and "yScreenTiles s0 = 5" and "totalScreenTiles s0 = 35"
    and "calls s0 = calls s" and "ren s0 = ren s" and "image_ptr s0 = image_ptr s"
    and "imageW s0 = imageW s" and "imageH s0 = imageH s"
proof -
  obtain xt yt tt cs where x: "xTiles_of (imageW s) tileW = Some xt"
    and y: "yTiles_of (imageH s) tileH = Some yt"
    and m: "c_mul xt yt = Some tt"
    and c: "fill_clips tt tileW tileH yt = Some cs"
    and s0: "s0 = s\<lparr>xTiles := xt, yTiles := yt, totalTiles := tt, clips := cs,
                  useClip := 0, xScreenTiles := 7, yScreenTiles := 5,
                  totalScreenTiles := 7 * 5, quit := False\<rparr>"
    using assms by (auto simp add: tile_layout_def screen_counts split: bind_splits)
  show "useClip s0 = 0" and "\<not> quit s0"
    and "yScreenTiles s0 = 5" and "totalScreenTiles s0 = 35"
    and "calls s0 = calls s" and "ren s0 = ren s" and "image_ptr s0 = image_ptr s"
    and "imageW s0 = imageW s" and "imageH s0 = imageH s"
    by (simp_all add: s0)
  show "int (length (clips s0)) = totalTiles s0"
    using fill_clips_length [OF c] by (simp add: s0)
qed

lemma tile_layout_defined:
  assumes "0 \<le> imageW s" and "0 \<le> imageH s"
    and "in_int ((imageW s div tileW) * (imageH s div tileH))"
  shows "\<exists>s0. tile_layout s = Some s0 \<and> totalTiles s0 = (imageW s div tileW) * (imageH s div tileH)"
proof -
  have t: "0 < tileW" "0 < tileH" by (simp_all add: tileW_def tileH_def)
  have "xTiles_of (imageW s) tileW = Some (imageW s div tileW)"
    and "yTiles_of (imageH s) tileH = Some (imageH s div tileH)"
    using assms t by (simp_all add: xTiles_of_def yTiles_of_def c_div_nonneg)
  then show ?thesis
    using clips_of_eq [OF t assms] assms(3)
    by (simp add: tile_layout_def clips_of_def screen_counts c_mul_in_int)
qed

lemma example_layout:
  "tile_layout example_state =
     Some (example_state\<lparr>xTiles := 4, yTiles := 2, totalTiles := 8,
        clips := [\<lparr>rect_x = 0, rect_y = 0, rect_w = 100, rect_h = 100\<rparr>,
                  \<lparr>rect_x = 0, rect_y = 100, rect_w = 100, rect_h = 100\<rparr>,
                  \<lparr>rect_x = 100, rect_y = 0, rect_w = 100, rect_h = 100\<rparr>,
                  \<lparr>rect_x = 100, rect_y = 100, rect_w = 100, rect_h = 100\<rparr>,
                  \<lparr>rect_x = 200, rect_y = 0, rect_w = 100, rect_h = 100\<rparr>,
                  \<lparr>rect_x = 200, rect_y = 100, rect_w = 100, rect_h = 100\<rparr>,
                  \<lparr>rect_x = 300, rect_y = 0, rect_w = 100, rect_h = 100\<rparr>,
                  \<lparr>rect_x = 300, rect_y = 100, rect_w = 100, rect_h = 100\<rparr>],
        useClip := 0, xScreenTiles := 7, yScreenTiles := 5, totalScreenTiles := 35,
        quit := False\<rparr>)"
proof -
  have x: "xTiles_of 400 tileW = Some 4" and y: "yTiles_of 200 tileH = Some 2"
    by (simp_all add: xTiles_of_def yTiles_of_def c_div_def tileW_def tileH_def)
  have c: "clips_of 400 200 tileW tileH =
      Some [\<lparr>rect_x = 0, rect_y = 0, rect_w = 100, rect_h = 100\<rparr>,
            \<lparr>rect_x = 0, rect_y = 100, rect_w = 100, rect_h = 100\<rparr>,
            \<lparr>rect_x = 100, rect_y = 0, rect_w = 100, rect_h = 100\<rparr>,
            \<lparr>rect_x = 100, rect_y = 100, rect_w = 100, rect_h = 100\<rparr>,
            \<lparr>rect_x = 200, rect_y = 0, rect_w = 100, rect_h = 100\<rparr>,
            \<lparr>rect_x = 200, rect_y = 100, rect_w = 100, rect_h = 100\<rparr>,
            \<lparr>rect_x = 300, rect_y = 0, rect_w = 100, rect_h = 100\<rparr>,
            \<lparr>rect_x = 300, rect_y = 100, rect_w = 100, rect_h = 100\<rparr>]"
    by (simp add: clips_of_eq tileW_def tileH_def in_int_def upto_rec1)
  have m: "c_mul 4 2 = Some 8"
    by (simp add: c_mul_def in_int_def)
  have f: "fill_clips 8 tileW tileH 2 =
      Some [\<lparr>rect_x = 0, rect_y = 0, rect_w = 100, rect_h = 100\<rparr>,
            \<lparr>rect_x = 0, rect_y = 100, rect_w = 100, rect_h = 100\<rparr>,
            \<lparr>rect_x = 100, rect_y = 0, rect_w = 100, rect_h = 100\<rparr>,
            \<lparr>rect_x = 100, rect_y = 100, rect_w = 100, rect_h = 100\<rparr>,
            \<lparr>rect_x = 200, rect_y = 0, rect_w = 100, rect_h = 100\<rparr>,
            \<lparr>rect_x = 200, rect_y = 100, rect_w = 100, rect_h = 100\<rparr>,
            \<lparr>rect_x = 300, rect_y = 0, rect_w = 100, rect_h = 100\<rparr>,
            \<lparr>rect_x = 300, rect_y = 100, rect_w = 100, rect_h = 100\<rparr>]"
    using c by (simp add: clips_of_def x y m)
  show ?thesis
    using f by (simp add: tile_layout_def example_state_def screen_counts x y m)
qed

subsection \<open>Events and frames\<close>

text \<open>
  Handling an event changes \<open>useClip\<close> and \<open>quit\<close> only; drawing a frame changes the
  trace of calls only, and adds one \<open>SDL_RenderCopy\<close> for each screen tile.
\<close>

lemma handle_event_useClip:
  "useClip (handle_event e s) = useClip s \<or> useClip (handle_event e s) \<in> {0, 1, 2, 3}"
  by (cases "(e, s)" rule: handle_event.cases) simp_all

lemma handle_event_frame:
  "clips (handle_event e s) = clips s" "totalTiles (handle_event e s) = totalTiles s"
  "yScreenTiles (handle_event e s) = yScreenTiles s"
  "totalScreenTiles (handle_event e s) = totalScreenTiles s"
  "calls (handle_event e s) = calls s"
  by (cases "(e, s)" rule: handle_event.cases; simp)+

lemma draw_tiles_eq:
  assumes "0 \<le> i" and "0 < yScreenTiles s" and "clip_at (clips s) (useClip s) = Some c"
  shows "draw_tiles i s =
     Some (s\<lparr>calls := calls s @
        map (\<lambda>k. SDL_RenderCopy (ren s) (image_ptr s) (Some c)
                   \<lparr>rect_x = (k div yScreenTiles s) * tileW, rect_y = (k mod yScreenTiles s) * tileH,
                     rect_w = rect_w c, rect_h = rect_h c\<rparr>)
            [i..totalScreenTiles s - 1]\<rparr>)"
  using assms
proof (induction i s rule: draw_tiles.induct)
  case (1 i s)
  show ?case
  proof (cases "i < totalScreenTiles s")
    case True
    let ?d = "\<lparr>rect_x = (i div yScreenTiles s) * tileW, rect_y = (i mod yScreenTiles s) * tileH,
                     rect_w = rect_w c, rect_h = rect_h c\<rparr>"
    let ?s = "s\<lparr>calls := renderTexture_xy (imageW s, imageH s) (image_ptr s) (ren s)
                ((i div yScreenTiles s) * tileW) ((i mod yScreenTiles s) * tileH) (Some c) (calls s)\<rparr>"
    have xy: "screen_xy_of i tileW tileH (yScreenTiles s) =
        Some ((i div yScreenTiles s) * tileW, (i mod yScreenTiles s) * tileH)"
      using "1.prems" by (simp add: screen_xy_of_def c_div_nonneg c_mod_nonneg)
    have u: "[i..totalScreenTiles s - 1] = i # [i + 1..totalScreenTiles s - 1]"
      using True by (simp add: upto_rec1)
    have ih: "draw_tiles (i + 1) ?s =
        Some (?s\<lparr>calls := calls ?s @
        map (\<lambda>k. SDL_RenderCopy (ren ?s) (image_ptr ?s) (Some c)
                   \<lparr>rect_x = (k div yScreenTiles ?s) * tileW, rect_y = (k mod yScreenTiles ?s) * tileH,
                     rect_w = rect_w c, rect_h = rect_h c\<rparr>)
            [i + 1..totalScreenTiles ?s - 1]\<rparr>)"
      using "1.prems" by (intro "1.IH" [OF True xy refl "1.prems"(3)]) simp_all
    have "draw_tiles i s = draw_tiles (i + 1) ?s"
      using True xy "1.prems"(3) by (subst draw_tiles.simps) simp
    then show ?thesis
      using ih u by (simp add: renderTexture_xy_def renderTexture_dst_def)
  next
    case False
    then show ?thesis by (subst draw_tiles.simps) simp
  qed
qed

lemma draw_tiles_frame:
  "draw_tiles i s = Some s' \<Longrightarrow> \<exists>cs. s' = s\<lparr>calls := cs\<rparr>"
proof (induction i s rule: draw_tiles.induct)
  case (1 i s)
  show ?case
  proof (cases "i < totalScreenTiles s")
    case True
    then obtain x y c where xy: "screen_xy_of i tileW tileH (yScreenTiles s) = Some (x, y)"
      and c: "clip_at (clips s) (useClip s) = Some c"
      and d: "draw_tiles (i + 1)
                (s\<lparr>calls := renderTexture_xy (imageW s, imageH s) (image_ptr s) (ren s) x y (Some c) (calls s)\<rparr>) = Some s'"
      using "1.prems" by (subst (asm) draw_tiles.simps) (auto split: option.splits)
    show ?thesis
      using "1.IH" [OF True xy refl c d] by auto
  next
    case False
    then have "s' = s\<lparr>calls := calls s\<rparr>"
      using "1.prems" by (subst (asm) draw_tiles.simps) simp
    then show ?thesis by blast
  qed
qed

lemma render_frame_frame:
  assumes "render_frame s = Some s'"
  shows "\<exists>cs. s' = s\<lparr>calls := cs\<rparr>"
proof -
  obtain s1 where d: "draw_tiles 0 (s\<lparr>calls := calls s @ [SDL_RenderClear (ren s)]\<rparr>) = Some s1"
    and s': "s' = s1\<lparr>calls := calls s1 @ [SDL_RenderPresent (ren s1)]\<rparr>"
    using assms by (auto simp add: render_frame_def split: bind_splits)
  obtain cs where "s1 = s\<lparr>calls := calls s @ [SDL_RenderClear (ren s)]\<rparr>\<lparr>calls := cs\<rparr>"
    using draw_tiles_frame [OF d] by blast
  then show ?thesis using s' by auto
qed

lemma render_frame_eq:
  assumes "0 < yScreenTiles s" and "clip_at (clips s) (useClip s) = Some c"
  shows "render_frame s =
     Some (s\<lparr>calls := calls s @ [SDL_RenderClear (ren s)] @
        map (\<lambda>k. SDL_RenderCopy (ren s) (image_ptr s) (Some c)
                   \<lparr>rect_x = (k div yScreenTiles s) * tileW, rect_y = (k mod yScreenTiles s) * tileH,
                     rect_w = rect_w c, rect_h = rect_h c\<rparr>)
            [0..totalScreenTiles s - 1] @ [SDL_RenderPresent (ren s)]\<rparr>)"
  using assms
  by (simp add: render_frame_def draw_tiles_eq [where c = c])

lemma render_frame_clip:
  assumes "render_frame s = Some s'" and "0 < totalScreenTiles s"
  shows "\<exists>c. clip_at (clips s) (useClip s) = Some c"
proof -
  have "draw_tiles 0 (s\<lparr>calls := calls s @ [SDL_RenderClear (ren s)]\<rparr>) \<noteq> None"
    using assms(1) by (auto simp add: render_frame_def split: bind_splits)
  then show ?thesis
    using assms(2) by (subst (asm) draw_tiles.simps) (auto split: option.splits)
qed

lemma frame_origins_eq:
  assumes "render_frame s = Some s'" and "0 < totalScreenTiles s" and "0 < yScreenTiles s"
  shows "frame_origins s s' =
     map (\<lambda>k. ((k div yScreenTiles s) * tileW, (k mod yScreenTiles s) * tileH))
       [0..totalScreenTiles s - 1]"
proof -
  obtain c where c: "clip_at (clips s) (useClip s) = Some c"
    using render_frame_clip [OF assms(1) assms(2)] by blast
  have "calls s' = calls s @ [SDL_RenderClear (ren s)] @
        map (\<lambda>k. SDL_RenderCopy (ren s) (image_ptr s) (Some c)
                   \<lparr>rect_x = (k div yScreenTiles s) * tileW, rect_y = (k mod yScreenTiles s) * tileH,
                     rect_w = rect_w c, rect_h = rect_h c\<rparr>)
            [0..totalScreenTiles s - 1] @ [SDL_RenderPresent (ren s)]"
    using assms(1) render_frame_eq [OF assms(3) c] by auto
  then show ?thesis
    by (simp add: frame_origins_def origin_of_def comp_def concat_map_singleton)
qed

lemma step_frame:
  assumes "step (p, s) (p', s')"
  shows "(useClip s' = useClip s \<or> useClip s' \<in> {0, 1, 2, 3}) \<and> clips s' = clips s \<and>
         totalTiles s' = totalTiles s \<and> yScreenTiles s' = yScreenTiles s \<and>
         totalScreenTiles s' = totalScreenTiles s"
  using assms
proof (cases rule: step.cases)
  case enter
  then show ?thesis by simp
next
  case leave
  then show ?thesis by simp
next
  case (poll_event e)
  then show ?thesis
    using handle_event_useClip [of e s] by (simp add: handle_event_frame)
next
  case poll_empty
  then obtain cs where "s' = s\<lparr>calls := cs\<rparr>"
    using render_frame_frame by blast
  then show ?thesis by simp
qed

lemma steps_invariant:
  assumes "rtranclp step (p0, s0) (p, s)" and "useClip s0 \<in> {0, 1, 2, 3}"
  shows "useClip s \<in> {0, 1, 2, 3} \<and> clips s = clips s0 \<and>
         totalTiles s = totalTiles s0 \<and> yScreenTiles s = yScreenTiles s0 \<and>
         totalScreenTiles s = totalScreenTiles s0"
  using assms
proof (induction rule: rtranclp_induct2)
  case refl
  then show ?case by simp
next
  case (step p s p' s')
  then show ?case
    using step_frame [OF step.hyps(2)] by auto
qed

lemma render_frame_defined:
  assumes "tile_layout s = Some s0" and "rtranclp step (LoopHead, s0) (p, t)"
    and "4 \<le> totalTiles s0"
  shows "\<exists>u. render_frame t = Some u"
proof -
  note l = tile_layout_Some [OF assms(1)]
  have i: "useClip t \<in> {0, 1, 2, 3}" "clips t = clips s0" "yScreenTiles t = yScreenTiles s0"
    using steps_invariant [OF assms(2)] l(1) by simp_all
  have "0 \<le> useClip t" and "useClip t < int (length (clips t))"
    using i l(3) assms(3) by auto
  then obtain c where c: "clip_at (clips t) (useClip t) = Some c"
    by (simp add: clip_at_def)
  have "0 < yScreenTiles t" using i(3) l(4) by simp
  then show ?thesis using render_frame_eq [OF _ c] by simp
qed

subsection \<open>The calls made by cleanup\<close>

lemma cleanup1_eq:
  "cleanup1 t cs = (if is_null t then cs else cs @ [release_call t])"
  by (cases t) simp_all

lemma cleanup_eq:
  "cleanup hs cs = cs @ map release_call (filter (\<lambda>h. \<not> is_null h) hs)"
  by (induction hs cs rule: cleanup.induct) (simp_all add: cleanup1_eq)

lemma release_call_inj: "release_call h = release_call h' \<longleftrightarrow> h = h'"
  by (cases h; cases h') simp_all

lemma count_released:
  "count_list (map release_call (filter (\<lambda>h. \<not> is_null h) hs)) (release_call h) =
     (if is_null h then 0 else count_list hs h)"
  by (induction hs) (auto simp add: release_call_inj)

lemma count_list_distinct: "distinct xs \<Longrightarrow> x \<in> set xs \<Longrightarrow> count_list xs x = 1"
  by (induction xs) auto

section \<open>The event loop as a function, and the range of the arithmetic\<close>

text \<open>
  Every run of \<open>event_loop\<close> is a path of the step relation, so what holds in every
  state the relation reaches holds after every run.
\<close>

lemma poll_events_steps:
  "rtranclp step (Polling, s) (Polling, poll_events es s)"
proof (induction es arbitrary: s)
  case Nil
  show ?case by simp
next
  case (Cons e es)
  have "step (Polling, s) (Polling, handle_event e s)" by (rule step.poll_event)
  then show ?case using Cons [of "handle_event e s"] by simp
qed

lemma event_loop_steps:
  "event_loop ess s = Some s' \<Longrightarrow> rtranclp step (LoopHead, s) (LoopHead, s')"
proof (induction ess arbitrary: s)
  case Nil
  then show ?case by simp
next
  case (Cons es ess)
  show ?case
  proof (cases "quit s")
    case True
    then show ?thesis using Cons.prems by simp
  next
    case False
    then obtain t where t: "render_frame (poll_events es s) = Some t"
      and r: "event_loop ess t = Some s'"
      using Cons.prems by (auto split: option.splits)
    have "step (LoopHead, s) (Polling, s)" using False by (rule step.enter)
    moreover have "rtranclp step (Polling, s) (Polling, poll_events es s)"
      by (rule poll_events_steps)
    moreover have "step (Polling, poll_events es s) (LoopHead, t)"
      using t by (rule step.poll_empty)
    moreover have "rtranclp step (LoopHead, t) (LoopHead, s')"
      using r by (rule Cons.IH)
    ultimately show ?thesis by (meson converse_rtranclp_into_rtranclp rtranclp.rtrancl_into_rtrancl rtranclp_trans)
  qed
qed

text \<open>
  For an image whose width and height are not negative and fit a 32-bit \<open>int\<close>, the tile
  counts per axis fit as well; and whenever the array of clips is built, that is,
  whenever the product \<open>totalTiles\<close> fits, so do the coordinates of every clip, also its
  right and lower edge.
\<close>

lemma lesson5_within_int:
  assumes "0 \<le> iw" and "0 \<le> ih" and "in_int iw" and "in_int ih"
  shows "\<exists>xt yt. xTiles_of iw tileW = Some xt \<and> yTiles_of ih tileH = Some yt \<and>
           in_int xt \<and> in_int yt \<and>
           (\<forall>cs. clips_of iw ih tileW tileH = Some cs \<longrightarrow>
              (\<exists>n. totalTiles_of iw ih tileW tileH = Some n \<and> in_int n \<and> int (length cs) = n) \<and>
              (\<forall>r \<in> set cs. in_int (rect_x r) \<and> in_int (rect_y r) \<and>
                             in_int (rect_x r + rect_w r) \<and> in_int (rect_y r + rect_h r)))"
proof -
  have t: "0 < tileW" "0 < tileH" by (simp_all add: tileW_def tileH_def)
  let ?xt = "iw div tileW" and ?yt = "ih div tileH"
  let ?f = "\<lambda>k. \<lparr>rect_x = (k div ?yt) * tileW, rect_y = (k mod ?yt) * tileH,
                  rect_w = tileW, rect_h = tileH\<rparr>"
  let ?cs = "if ?yt = 0 then [] else map ?f [0..?xt * ?yt - 1]"
  have x: "xTiles_of iw tileW = Some ?xt" and y: "yTiles_of ih tileH = Some ?yt"
    using assms t by (simp_all add: xTiles_of_def yTiles_of_def c_div_nonneg)
  have nx: "0 \<le> ?xt" "?xt \<le> iw" and ny: "0 \<le> ?yt" "?yt \<le> ih"
    using assms t zdiv_mono2 [of iw 1 tileW] zdiv_mono2 [of ih 1 tileH]
    by (simp_all add: pos_imp_zdiv_nonneg_iff)
  have ix: "in_int ?xt" and iy: "in_int ?yt"
    using nx ny assms by (simp_all add: in_int_def)
  have b: "(\<exists>n. totalTiles_of iw ih tileW tileH = Some n \<and> in_int n \<and> int (length cs) = n) \<and>
           (\<forall>r \<in> set cs. in_int (rect_x r) \<and> in_int (rect_y r) \<and>
                          in_int (rect_x r + rect_w r) \<and> in_int (rect_y r + rect_h r))"
    if cs: "clips_of iw ih tileW tileH = Some cs" for cs
  proof -
    have m: "in_int (?xt * ?yt)"
      using cs x y by (auto simp add: clips_of_def c_mul_def split: bind_splits if_splits)
    have c: "cs = ?cs"
      using clips_of_eq [OF t assms(1) assms(2) m] cs by simp
    have n: "totalTiles_of iw ih tileW tileH = Some (?xt * ?yt)"
      using x y m by (simp add: totalTiles_of_def c_mul_in_int)
    have l: "int (length cs) = ?xt * ?yt"
      using c nx ny by (cases "?yt = 0") simp_all
    have "in_int (rect_x r) \<and> in_int (rect_y r) \<and>
          in_int (rect_x r + rect_w r) \<and> in_int (rect_y r + rect_h r)" if r: "r \<in> set cs" for r
    proof -
      have p: "0 < ?yt" using r c ny by (auto split: if_splits)
      from r c p obtain k where k: "0 \<le> k" "k < ?xt * ?yt" and rk: "r = ?f k"
        by auto
      have "(k div ?yt) * tileW + tileW \<le> ?xt * tileW"
        and "(k mod ?yt) * tileH + tileH \<le> ?yt * tileH"
        using tile_inside [OF t p k] by simp_all
      moreover have "?xt * tileW \<le> iw" and "?yt * tileH \<le> ih"
        using t by (simp_all add: tiled_extent)
      moreover have "0 \<le> (k div ?yt) * tileW" and "0 \<le> (k mod ?yt) * tileH"
        using k p t by (simp_all add: pos_imp_zdiv_nonneg_iff)
      ultimately show ?thesis
        using assms(3) assms(4) t unfolding rk in_int_def by simp
    qed
    then show ?thesis using n m l by blast
  qed
  show ?thesis using x y ix iy b by blast
qed

section \<open>The source tile rectangle\<close>

text \<open>
  Claim C1. For every index \<open>i \<ge> 0\<close>, tile width and height \<open>> 0\<close> and
  \<open>rowsPerColumn > 0\<close>, the clip computed for index \<open>i\<close> is defined (no division by
  zero) and is the rectangle with \<open>x = (i / rowsPerColumn) * tileWidth\<close>,
  \<open>y = (i % rowsPerColumn) * tileHeight\<close>, \<open>width = tileWidth\<close>, \<open>height = tileHeight\<close>,
  where \<open>/\<close> and \<open>%\<close> are integer division and remainder.
\<close>

theorem clip_of_rect:
  assumes "0 \<le> i" and "0 < tw" and "0 < th" and "0 < rowsPerColumn"
  shows "clip_of i tw th rowsPerColumn =
           Some \<lparr>rect_x = (i div rowsPerColumn) * tw, rect_y = (i mod rowsPerColumn) * th,
                 rect_w = tw, rect_h = th\<rparr>"
  using assms by (simp add: clip_of_def c_div_nonneg c_mod_nonneg)

theorem clip_of_rect_witness:
  "(0::int) \<le> 5 \<and> (0::int) < 100 \<and> (0::int) < 2 \<and>
   clip_of 5 100 100 2 = Some \<lparr>rect_x = 200, rect_y = 100, rect_w = 100, rect_h = 100\<rparr>"
  using clip_of_rect [of 5 100 100 2] by simp

text \<open>
  Claim C2 says that for tile width and height \<open>> 0\<close> and every image at least one tile
  wide and high the number of source tiles is
  \<open>(sourceWidth / tileWidth) * (sourceHeight / tileHeight)\<close>. The count is an \<open>int\<close>: for
  an image of 4634100 by 4634100 pixels and the 100 by 100 tiles of the program the
  quotients are 46341 each, their product 2147488281 is beyond the largest \<open>int\<close>, and
  line 132 has no value; no array of clips is built.
\<close>

theorem totalTiles_overflows:
  "(0::int) < 100 \<and> (100::int) \<le> 4634100 \<and>
   in_int 4634100 \<and>
   xTiles_of 4634100 100 = Some 46341 \<and> yTiles_of 4634100 100 = Some 46341 \<and>
   (4634100 div 100) * (4634100 div 100) = (2147488281::int) \<and>
   \<not> in_int 2147488281 \<and>
   totalTiles_of 4634100 4634100 100 100 = None \<and>
   totalTiles_of 4634100 4634100 100 100 \<noteq> Some ((4634100 div 100) * (4634100 div 100)) \<and>
   clips_of 4634100 4634100 100 100 = None"
  by (simp add: totalTiles_of_def clips_of_def xTiles_of_def yTiles_of_def c_div_def c_mul_def
      in_int_def)

text \<open>
  Claim C2 as amended. For tile width and height \<open>> 0\<close> and an image at least one tile
  wide and high whose tile count \<open>(sourceWidth / tileWidth) * (sourceHeight / tileHeight)\<close>
  (floor division) fits a 32-bit \<open>int\<close>, the number of source tiles is that count. The
  array of clips has that many entries, and every clip lies inside the part of the image
  that whole tiles cover, \<open>sourceWidth - sourceWidth % tileWidth\<close> by
  \<open>sourceHeight - sourceHeight % tileHeight\<close>: the remainder pixels belong to no tile.
\<close>

theorem totalTiles_of_floor:
  assumes "0 < tw" and "0 < th" and "tw \<le> iw" and "th \<le> ih"
    and "in_int ((iw div tw) * (ih div th))"
  shows "totalTiles_of iw ih tw th = Some ((iw div tw) * (ih div th)) \<and>
         (\<exists>cs. clips_of iw ih tw th = Some cs \<and>
               int (length cs) = (iw div tw) * (ih div th) \<and>
               (\<forall>r \<in> set cs. rect_x r + rect_w r \<le> iw - iw mod tw \<and>
                              rect_y r + rect_h r \<le> ih - ih mod th))"
proof -
  have iw: "0 \<le> iw" and ih: "0 \<le> ih" using assms by simp_all
  have x: "0 < iw div tw" and y: "0 < ih div th"
    using assms by (simp_all add: pos_imp_zdiv_pos_iff)
  let ?cs = "map (\<lambda>k. \<lparr>rect_x = (k div (ih div th)) * tw, rect_y = (k mod (ih div th)) * th,
                             rect_w = tw, rect_h = th\<rparr>) [0..(iw div tw) * (ih div th) - 1]"
  have t: "totalTiles_of iw ih tw th = Some ((iw div tw) * (ih div th))"
    using assms iw ih
    by (simp add: totalTiles_of_def xTiles_of_def yTiles_of_def c_div_nonneg c_mul_in_int)
  have c: "clips_of iw ih tw th = Some ?cs"
    using clips_of_eq [OF assms(1) assms(2) iw ih assms(5)] y by simp
  have l: "int (length ?cs) = (iw div tw) * (ih div th)"
    using x y by simp
  have b: "\<forall>r \<in> set ?cs. rect_x r + rect_w r \<le> iw - iw mod tw \<and>
                              rect_y r + rect_h r \<le> ih - ih mod th"
  proof
    fix r assume "r \<in> set ?cs"
    then obtain k where k: "0 \<le> k" "k < (iw div tw) * (ih div th)"
      and r: "r = \<lparr>rect_x = (k div (ih div th)) * tw, rect_y = (k mod (ih div th)) * th,
                             rect_w = tw, rect_h = th\<rparr>"
      by auto
    show "rect_x r + rect_w r \<le> iw - iw mod tw \<and> rect_y r + rect_h r \<le> ih - ih mod th"
      using tile_inside [OF assms(1) assms(2) y k] r
      by (simp add: tiled_extent [symmetric])
  qed
  show ?thesis using t c l b by blast
qed

theorem totalTiles_of_floor_witness:
  "(0::int) < 100 \<and> (100::int) \<le> 450 \<and> (100::int) \<le> 230 \<and>
   in_int ((450 div 100) * (230 div 100)) \<and>
   totalTiles_of 450 230 100 100 = Some 8 \<and>
   (\<exists>cs. clips_of 450 230 100 100 = Some cs \<and> int (length cs) = 8 \<and>
         (\<forall>r \<in> set cs. rect_x r + rect_w r \<le> 400 \<and> rect_y r + rect_h r \<le> 200))"
proof -
  have i: "in_int ((450 div 100) * (230 div 100))" by (simp add: in_int_def)
  show ?thesis
    using i totalTiles_of_floor [of 100 100 450 230] by simp
qed

text \<open>
  Claim C3. For tile width and height \<open>> 0\<close>, an image at least one tile wide and high,
  and every index \<open>i\<close> with \<open>0 \<le> i < totalTiles\<close>, the clip computed for \<open>i\<close>, which
  is entry \<open>i\<close> of the array of clips, lies within the image: \<open>x + w \<le> sourceWidth\<close> and
  \<open>y + h \<le> sourceHeight\<close>.
\<close>

theorem clip_within_image:
  assumes "0 < tw" and "0 < th" and "tw \<le> iw" and "th \<le> ih"
    and "totalTiles_of iw ih tw th = Some n" and "0 \<le> i" and "i < n"
  shows "\<exists>yt cs r. yTiles_of ih th = Some yt \<and> clip_of i tw th yt = Some r \<and>
           clips_of iw ih tw th = Some cs \<and> clip_at cs i = Some r \<and>
           rect_x r + rect_w r \<le> iw \<and> rect_y r + rect_h r \<le> ih"
proof -
  have iw: "0 \<le> iw" and ih: "0 \<le> ih" using assms by simp_all
  have y: "0 < ih div th"
    using assms by (simp add: pos_imp_zdiv_pos_iff)
  have "c_mul (iw div tw) (ih div th) = Some n"
    using assms iw ih by (simp add: totalTiles_of_def xTiles_of_def yTiles_of_def c_div_nonneg)
  then have n: "n = (iw div tw) * (ih div th)" and m: "in_int ((iw div tw) * (ih div th))"
    using c_mul_Some by blast+
  let ?f = "\<lambda>k. \<lparr>rect_x = (k div (ih div th)) * tw, rect_y = (k mod (ih div th)) * th,
                  rect_w = tw, rect_h = th\<rparr>"
  have a: "yTiles_of ih th = Some (ih div th)"
    using assms ih by (simp add: yTiles_of_def c_div_nonneg)
  have b: "clip_of i tw th (ih div th) = Some (?f i)"
    using assms y by (simp add: clip_of_def c_div_nonneg c_mod_nonneg)
  have c: "clips_of iw ih tw th = Some (map ?f [0..n - 1])"
    using clips_of_eq [OF assms(1) assms(2) iw ih m] y n by simp
  have d: "clip_at (map ?f [0..n - 1]) i = Some (?f i)"
    using assms(6) assms(7) by (rule clips_index)
  have k: "i < (iw div tw) * (ih div th)" using assms(7) n by simp
  have "(iw div tw) * tw \<le> iw" and "(ih div th) * th \<le> ih"
    using assms(1) assms(2) by (simp_all add: tiled_extent)
  then have e: "rect_x (?f i) + rect_w (?f i) \<le> iw \<and> rect_y (?f i) + rect_h (?f i) \<le> ih"
    using tile_inside [OF assms(1) assms(2) y assms(6) k] by simp
  show ?thesis using a b c d e by blast
qed

theorem clip_within_image_witness:
  "(0::int) < 100 \<and> (100::int) \<le> 450 \<and> (100::int) \<le> 230 \<and>
   totalTiles_of 450 230 100 100 = Some 8 \<and> (0::int) \<le> 7 \<and> (7::int) < 8 \<and>
   (\<exists>yt cs r. yTiles_of 230 100 = Some yt \<and> clip_of 7 100 100 yt = Some r \<and>
           clips_of 450 230 100 100 = Some cs \<and> clip_at cs 7 = Some r \<and>
           rect_x r + rect_w r \<le> 450 \<and> rect_y r + rect_h r \<le> 230)"
proof -
  have t: "totalTiles_of 450 230 100 100 = Some 8"
    by (simp add: totalTiles_of_def xTiles_of_def yTiles_of_def c_div_def c_mul_def in_int_def)
  show ?thesis
    using t clip_within_image [of 100 100 450 230 8 7] by simp
qed

text \<open>
  Claim C5. Column-major order: for \<open>i \<ge> 0\<close> and \<open>rowsPerColumn > 0\<close>, the clip of
  index \<open>i + 1\<close> is the clip of index \<open>i\<close> moved down by one tile height when \<open>i\<close> is
  not the last index of its column (\<open>i % rowsPerColumn \<noteq> rowsPerColumn - 1\<close>); when it is
  the last one, the clip of \<open>i + 1\<close> is one tile width to the right, at \<open>y = 0\<close>.
\<close>

theorem clip_of_successor:
  assumes "0 \<le> i" and "0 < rowsPerColumn"
  shows "\<exists>r r'. clip_of i tw th rowsPerColumn = Some r \<and>
           clip_of (i + 1) tw th rowsPerColumn = Some r' \<and>
           (i mod rowsPerColumn \<noteq> rowsPerColumn - 1 \<longrightarrow>
              r' = r\<lparr>rect_y := rect_y r + th\<rparr>) \<and>
           (i mod rowsPerColumn = rowsPerColumn - 1 \<longrightarrow>
              r' = r\<lparr>rect_x := rect_x r + tw, rect_y := 0\<rparr>)"
proof -
  let ?f = "\<lambda>k. \<lparr>rect_x = (k div rowsPerColumn) * tw, rect_y = (k mod rowsPerColumn) * th,
                  rect_w = tw, rect_h = th\<rparr>"
  have a: "clip_of i tw th rowsPerColumn = Some (?f i)"
    using assms by (simp add: clip_of_def c_div_nonneg c_mod_nonneg)
  have b: "clip_of (i + 1) tw th rowsPerColumn = Some (?f (i + 1))"
    using assms by (simp add: clip_of_def c_div_nonneg c_mod_nonneg)
  have c: "?f (i + 1) = (?f i)\<lparr>rect_y := rect_y (?f i) + th\<rparr>"
    if "i mod rowsPerColumn \<noteq> rowsPerColumn - 1"
    using succ_same_column [OF assms(2) that] by (simp add: algebra_simps)
  have d: "?f (i + 1) = (?f i)\<lparr>rect_x := rect_x (?f i) + tw, rect_y := 0\<rparr>"
    if "i mod rowsPerColumn = rowsPerColumn - 1"
    using succ_next_column [OF assms(2) that] by (simp add: algebra_simps)
  show ?thesis using a b c d by blast
qed

theorem clip_of_successor_witness:
  "(0::int) \<le> 2 \<and> (0::int) < 2 \<and> (2::int) mod 2 \<noteq> 2 - 1 \<and>
   (\<exists>r. clip_of 2 100 100 2 = Some r \<and>
        clip_of (2 + 1) 100 100 2 = Some (r\<lparr>rect_y := rect_y r + 100\<rparr>)) \<and>
   (0::int) \<le> 3 \<and> (3::int) mod 2 = 2 - 1 \<and>
   (\<exists>r. clip_of 3 100 100 2 = Some r \<and>
        clip_of (3 + 1) 100 100 2 = Some (r\<lparr>rect_x := rect_x r + 100, rect_y := 0\<rparr>))"
  using clip_of_successor [of 2 2 100 100] clip_of_successor [of 3 2 100 100] by simp

text \<open>
  Claim C7. For tile width and height \<open>> 0\<close>, an image (its width and height are pixel
  counts, so not negative) that is narrower or lower than one tile yields 0 source tiles
  and an empty array of clips; in particular a 50 by 50 image with 100 by 100 tiles
  yields 0 tiles.
\<close>

theorem no_tiles_when_image_smaller_than_tile:
  assumes "0 < tw" and "0 < th" and "0 \<le> iw" and "0 \<le> ih" and "iw < tw \<or> ih < th"
  shows "totalTiles_of iw ih tw th = Some 0 \<and> clips_of iw ih tw th = Some [] \<and>
         totalTiles_of 50 50 100 100 = Some 0"
proof -
  have z: "iw div tw = 0 \<or> ih div th = 0"
    using assms by (auto simp add: div_pos_pos_trivial)
  have p: "(iw div tw) * (ih div th) = 0" using z by auto
  have m: "in_int ((iw div tw) * (ih div th))"
    unfolding p by (simp add: in_int_def)
  have t: "totalTiles_of iw ih tw th = Some ((iw div tw) * (ih div th))"
    using assms m
    by (simp add: totalTiles_of_def xTiles_of_def yTiles_of_def c_div_nonneg c_mul_in_int)
  have c: "clips_of iw ih tw th = Some []"
    using clips_of_eq [OF assms(1) assms(2) assms(3) assms(4) m] z by auto
  have e: "totalTiles_of 50 50 100 100 = Some 0"
    by (simp add: totalTiles_of_def xTiles_of_def yTiles_of_def c_div_def c_mul_def in_int_def)
  show ?thesis using z t c e by auto
qed

theorem no_tiles_when_image_smaller_than_tile_witness:
  "(0::int) < 100 \<and> (0::int) \<le> 250 \<and> (0::int) \<le> 99 \<and> ((250::int) < 100 \<or> (99::int) < 100) \<and>
   totalTiles_of 250 99 100 100 = Some 0 \<and> clips_of 250 99 100 100 = Some []"
  using no_tiles_when_image_smaller_than_tile [of 100 100 250 99] by simp

section \<open>The screen grid\<close>

text \<open>
  Claim C4. For display width and height and tile width and height \<open>> 0\<close>, the screen
  tile counts are the ceiling quotients (\<open>displayWidth / tileWidth\<close>, plus one when
  \<open>displayWidth % tileWidth\<close> is not zero, and the same for the rows), and the grid covers
  the display: \<open>columns * tileWidth \<ge> displayWidth\<close> and \<open>rows * tileHeight \<ge> displayHeight\<close>.
\<close>

theorem screen_tiles_cover:
  assumes "0 < dw" and "0 < dh" and "0 < tw" and "0 < th"
  shows "\<exists>columns rows.
           xScreenTiles_of dw tw = Some columns \<and> yScreenTiles_of dh th = Some rows \<and>
           columns = dw div tw + (if dw mod tw \<noteq> 0 then 1 else 0) \<and>
           rows = dh div th + (if dh mod th \<noteq> 0 then 1 else 0) \<and>
           totalScreenTiles_of dw dh tw th = Some (columns * rows) \<and>
           dw \<le> columns * tw \<and> dh \<le> rows * th"
proof -
  have cover: "a \<le> (a div b + (if a mod b \<noteq> 0 then 1 else 0)) * b" if "0 < b" for a b :: int
  proof -
    have m: "a mod b < b" using that by simp
    have e: "a = (a div b) * b + a mod b" by simp
    show ?thesis
    proof (cases "a mod b = 0")
      case True
      then show ?thesis using e by simp
    next
      case False
      have "a \<le> (a div b) * b + b" using e m by linarith
      then show ?thesis using False by (simp add: algebra_simps)
    qed
  qed
  have x: "xScreenTiles_of dw tw = Some (dw div tw + (if dw mod tw \<noteq> 0 then 1 else 0))"
    using assms by (simp add: xScreenTiles_of_def c_div_nonneg c_mod_nonneg)
  have y: "yScreenTiles_of dh th = Some (dh div th + (if dh mod th \<noteq> 0 then 1 else 0))"
    using assms by (simp add: yScreenTiles_of_def c_div_nonneg c_mod_nonneg)
  have t: "totalScreenTiles_of dw dh tw th =
      Some ((dw div tw + (if dw mod tw \<noteq> 0 then 1 else 0)) * (dh div th + (if dh mod th \<noteq> 0 then 1 else 0)))"
    by (simp only: totalScreenTiles_of_def x y) simp
  show ?thesis
    using x y t cover [OF assms(3), of dw] cover [OF assms(4), of dh] by blast
qed

theorem screen_tiles_cover_witness:
  "0 < SCREEN_WIDTH \<and> 0 < SCREEN_HEIGHT \<and> 0 < tileW \<and> 0 < tileH \<and>
   (\<exists>columns rows.
      xScreenTiles_of SCREEN_WIDTH tileW = Some columns \<and>
      yScreenTiles_of SCREEN_HEIGHT tileH = Some rows \<and>
      columns = 7 \<and> rows = 5 \<and>
      totalScreenTiles_of SCREEN_WIDTH SCREEN_HEIGHT tileW tileH = Some 35 \<and>
      SCREEN_WIDTH \<le> columns * tileW \<and> SCREEN_HEIGHT \<le> rows * tileH)"
  using screen_tiles_cover [of SCREEN_WIDTH SCREEN_HEIGHT tileW tileH]
  by (simp add: SCREEN_WIDTH_def SCREEN_HEIGHT_def tileW_def tileH_def)

text \<open>
  Claim C6 says that every screen-tiling loop of the repository places tile \<open>i\<close> in
  column-major order, at \<open>screenTileOrigin\<close>. The draw loop of Lesson 5 does. The
  background loop of Lesson 3 does not: it runs along a row first, so with its 16 columns
  and 12 rows tile 1 is drawn at \<open>(40, 0)\<close>, where column-major order puts it at
  \<open>(0, 40)\<close>, whether \<open>rowsPerScreen\<close> is read as the 12 rows or as the loop's own
  divisor 16.
\<close>

theorem background_loop_is_row_major:
  "background_xTiles_of SCREEN_WIDTH TILE_SIZE = Some 16 \<and>
   background_yTiles_of SCREEN_HEIGHT TILE_SIZE = Some 12 \<and>
   background_dst_of 1 TILE_SIZE 16 = Some \<lparr>rect_x = 40, rect_y = 0, rect_w = 40, rect_h = 40\<rparr> \<and>
   screenTileOrigin 1 TILE_SIZE TILE_SIZE 12 = (0, 40) \<and>
   map_option origin_of (background_dst_of 1 TILE_SIZE 16)
     \<noteq> Some (screenTileOrigin 1 TILE_SIZE TILE_SIZE 12) \<and>
   map_option origin_of (background_dst_of 1 TILE_SIZE 16)
     \<noteq> Some (screenTileOrigin 1 TILE_SIZE TILE_SIZE 16)"
  by (simp add: background_xTiles_of_def background_yTiles_of_def background_dst_of_def
      screenTileOrigin_def origin_of_def c_div_def c_mod_def SCREEN_WIDTH_def SCREEN_HEIGHT_def TILE_SIZE_def)

text \<open>
  Claim C6 as amended. For \<open>i \<ge> 0\<close>: with \<open>rowsPerScreen > 0\<close> the draw loop of
  Lesson 5 places screen tile \<open>i\<close> at \<open>x = (i / rowsPerScreen) * tileWidth\<close>,
  \<open>y = (i % rowsPerScreen) * tileHeight\<close> (column-major); with \<open>columnsPerScreen > 0\<close>
  the background loop of Lesson 3 places tile \<open>i\<close> at
  \<open>x = (i % columnsPerScreen) * tileSize\<close>, \<open>y = (i / columnsPerScreen) * tileSize\<close>
  (row-major).
\<close>

theorem screen_tile_placement:
  assumes "0 \<le> i" and "0 < rowsPerScreen" and "0 < columnsPerScreen"
  shows "screen_xy_of i tw th rowsPerScreen = Some (screenTileOrigin i tw th rowsPerScreen) \<and>
         background_dst_of i ts columnsPerScreen =
           Some \<lparr>rect_x = (i mod columnsPerScreen) * ts, rect_y = (i div columnsPerScreen) * ts,
                 rect_w = ts, rect_h = ts\<rparr>"
  using assms
  by (simp add: screen_xy_of_def background_dst_of_def screenTileOrigin_def c_div_nonneg c_mod_nonneg)

theorem screen_tile_placement_witness:
  "(0::int) \<le> 7 \<and> (0::int) < 5 \<and> (0::int) < 16 \<and>
   screen_xy_of 7 tileW tileH 5 = Some (screenTileOrigin 7 tileW tileH 5) \<and>
   screenTileOrigin 7 tileW tileH 5 = (100, 200) \<and>
   background_dst_of 7 TILE_SIZE 16 = Some \<lparr>rect_x = 280, rect_y = 0, rect_w = 40, rect_h = 40\<rparr>"
  using screen_tile_placement [of 7 5 16 tileW tileH TILE_SIZE]
  by (simp add: screenTileOrigin_def tileW_def tileH_def TILE_SIZE_def)

section \<open>Cleanup\<close>

text \<open>
  Claim C9. For every list of handles passed to \<open>cleanup\<close>, whatever the order and
  mixture of null and non-null handles: the calls it adds to the trace are the release
  calls of the non-null handles, in the order of the arguments, and nothing else. So a
  null handle is never released, a non-null handle is released once for each time it is
  passed, and when no handle is passed twice every non-null handle is released exactly
  once.
\<close>

theorem cleanup_releases_each_once:
  "\<exists>released.
     cleanup hs cs = cs @ released \<and>
     released = map release_call (filter (\<lambda>h. \<not> is_null h) hs) \<and>
     (\<forall>h. count_list released (release_call h) = (if is_null h then 0 else count_list hs h)) \<and>
     (distinct hs \<longrightarrow>
        (\<forall>h \<in> set hs. count_list released (release_call h) = (if is_null h then 0 else 1)))"
proof -
  let ?rel = "map release_call (filter (\<lambda>h. \<not> is_null h) hs)"
  have a: "cleanup hs cs = cs @ ?rel" by (rule cleanup_eq)
  have b: "\<forall>h. count_list ?rel (release_call h) = (if is_null h then 0 else count_list hs h)"
    by (simp add: count_released)
  have c: "distinct hs \<longrightarrow>
        (\<forall>h \<in> set hs. count_list ?rel (release_call h) = (if is_null h then 0 else 1))"
    by (simp add: count_released count_list_distinct)
  show ?thesis using a b c by blast
qed

theorem cleanup_releases_each_once_witness:
  "cleanup [Texture nullptr, Renderer 2, Window 1] [] = [SDL_DestroyRenderer 2, SDL_DestroyWindow 1] \<and>
   distinct [Texture nullptr, Renderer 2, Window 1] \<and>
   count_list (cleanup [Texture nullptr, Renderer 2, Window 1] []) (SDL_DestroyTexture nullptr) = 0 \<and>
   count_list (cleanup [Texture nullptr, Renderer 2, Window 1] []) (SDL_DestroyRenderer 2) = 1 \<and>
   count_list (cleanup [Texture nullptr, Renderer 2, Window 1] []) (SDL_DestroyWindow 1) = 1"
  using cleanup_releases_each_once [of "[Texture nullptr, Renderer 2, Window 1]" "[]"]
  by (simp add: nullptr_def)

section \<open>The event loop of Lesson 5\<close>

text \<open>
  Claim C10. In every state the event loop of Lesson 5 reaches, \<open>useClip\<close> is one of
  0, 1, 2, 3: it is 0 when the loop starts, and handling an event leaves it unchanged or
  sets it to one of 0, 1, 2, 3. When the image yields at least 4 tiles (\<open>totalTiles\<close>,
  which is the tile count of the image, is at least 4), the lookup \<open>clips[useClip]\<close> is
  in bounds, and drawing the frame reads no clip outside the array.
\<close>

theorem useClip_in_range:
  assumes "tile_layout s_in = Some s0" and "rtranclp step (LoopHead, s0) (p, s)"
  shows "useClip s0 = 0 \<and> useClip s \<in> {0, 1, 2, 3} \<and>
         (\<forall>e. useClip (handle_event e s) = useClip s \<or> useClip (handle_event e s) \<in> {0, 1, 2, 3}) \<and>
         totalTiles_of (imageW s_in) (imageH s_in) tileW tileH = Some (totalTiles s) \<and>
         (4 \<le> totalTiles s \<longrightarrow>
            (\<exists>c. clip_at (clips s) (useClip s) = Some c) \<and> render_frame s \<noteq> None)"
proof -
  note l = tile_layout_Some [OF assms(1)]
  have i: "useClip s \<in> {0, 1, 2, 3}" "clips s = clips s0" "totalTiles s = totalTiles s0"
      "yScreenTiles s = yScreenTiles s0"
    using steps_invariant [OF assms(2)] l(1) by simp_all
  have t: "totalTiles_of (imageW s_in) (imageH s_in) tileW tileH = Some (totalTiles s)"
    using assms(1) i(3) by (auto simp add: tile_layout_def totalTiles_of_def split: bind_splits)
  have b: "(\<exists>c. clip_at (clips s) (useClip s) = Some c) \<and> render_frame s \<noteq> None"
    if "4 \<le> totalTiles s"
  proof -
    have "0 \<le> useClip s" and "useClip s < int (length (clips s))"
      using i l(3) that by auto
    then obtain c where c: "clip_at (clips s) (useClip s) = Some c"
      by (simp add: clip_at_def)
    have "0 < yScreenTiles s" using i(4) l(4) by simp
    then show ?thesis using c render_frame_eq [of s c] by simp
  qed
  show ?thesis
    using l(1) i(1) t b handle_event_useClip by blast
qed

theorem useClip_in_range_witness:
  "\<exists>s0. tile_layout example_state = Some s0 \<and>
     rtranclp step (LoopHead, s0) (Polling, handle_event (SDL_KEYDOWN SDLK_KP_3) s0) \<and>
     useClip s0 = 0 \<and>
     useClip (handle_event (SDL_KEYDOWN SDLK_KP_3) s0) = 2 \<and>
     useClip (handle_event (SDL_KEYDOWN SDLK_KP_3) s0) \<in> {0, 1, 2, 3} \<and>
     totalTiles (handle_event (SDL_KEYDOWN SDLK_KP_3) s0) = 8 \<and>
     (\<exists>c. clip_at (clips (handle_event (SDL_KEYDOWN SDLK_KP_3) s0))
             (useClip (handle_event (SDL_KEYDOWN SDLK_KP_3) s0)) = Some c) \<and>
     render_frame (handle_event (SDL_KEYDOWN SDLK_KP_3) s0) \<noteq> None"
proof -
  obtain s0 where l: "tile_layout example_state = Some s0"
    and q: "\<not> quit s0" and t: "totalTiles s0 = 8"
    using example_layout by simp
  have "step (LoopHead, s0) (Polling, s0)"
    using q by (rule step.enter)
  moreover have "step (Polling, s0) (Polling, handle_event (SDL_KEYDOWN SDLK_KP_3) s0)"
    by (rule step.poll_event)
  ultimately have r: "rtranclp step (LoopHead, s0) (Polling, handle_event (SDL_KEYDOWN SDLK_KP_3) s0)"
    by simp
  show ?thesis
    using l r t useClip_in_range [OF l r] by (intro exI [of _ s0]) simp
qed

section \<open>Determinism of the tile layout\<close>

text \<open>
  Claim C8. The tile layout computations are deterministic and depend on nothing but
  their inputs. Run on two states of \<open>main\<close> that agree on the size of the image, the
  layout block computes the same tile counts, the same clips and the same screen grid,
  whatever else the states hold; it changes no variable but the ones it assigns, and
  makes no call into the rendering library. In any two frames drawn by any two runs of
  the event loop, the screen tiles are placed at the same positions.
\<close>

theorem tile_layout_deterministic:
  assumes "imageW s1 = imageW s2" and "imageH s1 = imageH s2"
  shows "map_option layout_of (tile_layout s1) = map_option layout_of (tile_layout s2) \<and>
         (\<forall>s'. tile_layout s1 = Some s' \<longrightarrow>
            calls s' = calls s1 \<and> ren s' = ren s1 \<and> image_ptr s' = image_ptr s1 \<and>
            imageW s' = imageW s1 \<and> imageH s' = imageH s1) \<and>
         (\<forall>s1' s2' p1 p2 t1 t2 u1 u2.
            tile_layout s1 = Some s1' \<and> tile_layout s2 = Some s2' \<and>
            rtranclp step (LoopHead, s1') (p1, t1) \<and> rtranclp step (LoopHead, s2') (p2, t2) \<and>
            render_frame t1 = Some u1 \<and> render_frame t2 = Some u2 \<longrightarrow>
            frame_origins t1 u1 = frame_origins t2 u2)"
proof -
  have a: "map_option layout_of (tile_layout s1) = map_option layout_of (tile_layout s2)"
    using assms by (auto simp add: tile_layout_def layout_of_def split: bind_split)
  have b: "calls s' = calls s1 \<and> ren s' = ren s1 \<and> image_ptr s' = image_ptr s1 \<and>
            imageW s' = imageW s1 \<and> imageH s' = imageH s1" if "tile_layout s1 = Some s'" for s'
    using tile_layout_Some [OF that] by simp
  have o: "frame_origins t u = map (\<lambda>k. ((k div 5) * tileW, (k mod 5) * tileH)) [0..34]"
    if "tile_layout s = Some s0" and "rtranclp step (LoopHead, s0) (p, t)"
      and "render_frame t = Some u" for s s0 p t u
  proof -
    note l = tile_layout_Some [OF that(1)]
    have "yScreenTiles t = 5" and "totalScreenTiles t = 35"
      using steps_invariant [OF that(2)] l by simp_all
    then show ?thesis
      using frame_origins_eq [OF that(3)] by simp
  qed
  have c: "frame_origins t1 u1 = frame_origins t2 u2"
    if "tile_layout s1 = Some s1'" and "tile_layout s2 = Some s2'"
      and "rtranclp step (LoopHead, s1') (p1, t1)" and "rtranclp step (LoopHead, s2') (p2, t2)"
      and "render_frame t1 = Some u1" and "render_frame t2 = Some u2"
    for s1' s2' p1 p2 t1 t2 u1 u2
    using o [OF that(1) that(3) that(5)] o [OF that(2) that(4) that(6)] by simp
  show ?thesis using a b c by blast
qed

theorem tile_layout_deterministic_witness:
  "imageW example_state = imageW (example_state\<lparr>ren := 9, calls := [SDL_RenderClear 9]\<rparr>) \<and>
   imageH example_state = imageH (example_state\<lparr>ren := 9, calls := [SDL_RenderClear 9]\<rparr>) \<and>
   map_option layout_of (tile_layout example_state) =
     map_option layout_of (tile_layout (example_state\<lparr>ren := 9, calls := [SDL_RenderClear 9]\<rparr>)) \<and>
   (\<exists>s1 s2 u1 u2.
      tile_layout example_state = Some s1 \<and>
      tile_layout (example_state\<lparr>ren := 9, calls := [SDL_RenderClear 9]\<rparr>) = Some s2 \<and>
      calls s1 = [] \<and> calls s2 = [SDL_RenderClear 9] \<and> ren s2 = 9 \<and>
      rtranclp step (LoopHead, s1) (LoopHead, s1) \<and>
      rtranclp step (LoopHead, s2) (Polling, handle_event (SDL_KEYDOWN SDLK_2) s2) \<and>
      render_frame s1 = Some u1 \<and>
      render_frame (handle_event (SDL_KEYDOWN SDLK_2) s2) = Some u2 \<and>
      frame_origins s1 u1 = frame_origins (handle_event (SDL_KEYDOWN SDLK_2) s2) u2)"
proof -
  let ?a = "example_state"
  let ?b = "example_state\<lparr>ren := 9, calls := [SDL_RenderClear 9]\<rparr>"
  let ?e = "SDL_KEYDOWN SDLK_2"
  have eq: "imageW ?a = imageW ?b" "imageH ?a = imageH ?b" by simp_all
  note d = tile_layout_deterministic [OF eq]
  obtain s1 where s1: "tile_layout ?a = Some s1" and n1: "totalTiles s1 = 8"
    using tile_layout_defined [of ?a]
    by (auto simp add: example_state_def tileW_def tileH_def in_int_def)
  obtain s2 where s2: "tile_layout ?b = Some s2" and n2: "totalTiles s2 = 8"
    using tile_layout_defined [of ?b]
    by (auto simp add: example_state_def tileW_def tileH_def in_int_def)
  have r1: "rtranclp step (LoopHead, s1) (LoopHead, s1)" by simp
  have "step (LoopHead, s2) (Polling, s2)"
    using tile_layout_Some(2) [OF s2] by (rule step.enter)
  moreover have "step (Polling, s2) (Polling, handle_event ?e s2)"
    by (rule step.poll_event)
  ultimately have r2: "rtranclp step (LoopHead, s2) (Polling, handle_event ?e s2)"
    by simp
  obtain u1 where u1: "render_frame s1 = Some u1"
    using render_frame_defined [OF s1 r1] n1 by auto
  obtain u2 where u2: "render_frame (handle_event ?e s2) = Some u2"
    using render_frame_defined [OF s2 r2] n2 by auto
  have o: "frame_origins s1 u1 = frame_origins (handle_event ?e s2) u2"
    using d s1 s2 r1 r2 u1 u2 by blast
  have c: "calls s1 = []" "calls s2 = [SDL_RenderClear 9]" "ren s2 = 9"
    using tile_layout_Some [OF s1] tile_layout_Some [OF s2] by (simp_all add: example_state_def)
  show ?thesis
    using d s1 s2 r1 r2 u1 u2 o c by (intro conjI exI [of _ s1] exI [of _ s2] exI [of _ u1] exI [of _ u2]) simp_all
qed

end
